theory Spec2Isabelle
  imports Main "HOL-Library.Sublist"
begin

section \<open>Types and SSA values\<close>

text \<open>
  The printable-type domain as \<open>getFormatSubstr\<close> queries it: a pointer, a builtin
  integer (signedness and bit width), a builtin float, or anything else. The four
  floats the decimal path names have constructors of their own; every other builtin
  float (the 8-bit formats, tf32, f80, f128) is \<open>OtherFloat\<close> with its bit width,
  which for those formats is none of 16, 32 and 64.
\<close>

datatype signedness = Signless | Signed | Unsigned

datatype float_kind = BF16 | F16 | F32 | F64 | OtherFloat nat

datatype mlir_type =
    LLVMPointerType
  | IntegerType signedness nat
  | FloatType float_kind
  | OtherType

text \<open>An SSA value: its type, and a number that tells it from the other values.\<close>

record Value =
  getType :: mlir_type
  ident :: nat

text \<open>Every assertion of the source is an error of the model.\<close>

datatype error =
    NotIntOrFloat
  | NotSupportedType
  | ElemsEmpty
  | ElemsIndicesSizeMismatch
  | RankMismatch
  | ScalarElemsSize
  | InvalidIndex
  | NullFormatString

section \<open>Decimal rendering (std::to_string)\<close>

definition digit :: "nat \<Rightarrow> char" where
  "digit n = ''0123456789'' ! (n mod 10)"

function to_string_unsigned :: "nat \<Rightarrow> string" where
  "to_string_unsigned n =
     (if n < 10 then [digit n] else to_string_unsigned (n div 10) @ [digit n])"
  by pat_completeness auto
termination
  by (relation "measure id") auto

declare to_string_unsigned.simps [simp del]

definition to_string :: "int \<Rightarrow> string" where
  "to_string i =
     (if i < 0 then ''-'' @ to_string_unsigned (nat (- i)) else to_string_unsigned (nat i))"

section \<open>Type queries\<close>

definition isIntOrFloat :: "mlir_type \<Rightarrow> bool" where
  "isIntOrFloat t = (case t of IntegerType s w \<Rightarrow> True | FloatType k \<Rightarrow> True | _ \<Rightarrow> False)"

fun floatWidth :: "float_kind \<Rightarrow> nat" where
  "floatWidth BF16 = 16"
| "floatWidth F16 = 16"
| "floatWidth F32 = 32"
| "floatWidth F64 = 64"
| "floatWidth (OtherFloat w) = w"

text \<open>\<open>Type::getIntOrFloatBitWidth\<close> asserts that the type is an integer or a float.\<close>

definition getIntOrFloatBitWidth :: "mlir_type \<Rightarrow> error + nat" where
  "getIntOrFloatBitWidth t =
     (case t of
        IntegerType s w \<Rightarrow> Inr w
      | FloatType k \<Rightarrow> Inr (floatWidth k)
      | _ \<Rightarrow> Inl NotIntOrFloat)"

definition isSignedInteger :: "mlir_type \<Rightarrow> bool" where
  "isSignedInteger t = (case t of IntegerType s w \<Rightarrow> s = Signed | _ \<Rightarrow> False)"

definition isUnsignedInteger :: "mlir_type \<Rightarrow> bool" where
  "isUnsignedInteger t = (case t of IntegerType s w \<Rightarrow> s = Unsigned | _ \<Rightarrow> False)"

definition isSignlessInteger :: "mlir_type \<Rightarrow> bool" where
  "isSignlessInteger t = (case t of IntegerType s w \<Rightarrow> s = Signless | _ \<Rightarrow> False)"

section \<open>The specifier resolver\<close>

text \<open>
  \<open>getFormatSubstr(value, hex, width)\<close>, branch for branch: the pointer test first,
  then the bit width (which asserts), the hex form, the \<open>%\<close> prefix with the optional
  width (its \<open>else if (hex)\<close> arm is kept although the hex case has returned by then),
  and the chain of type tests ending in \<open>assert(false)\<close>.
\<close>

definition getFormatSubstr :: "Value \<Rightarrow> bool \<Rightarrow> int option \<Rightarrow> error + string" where
  "getFormatSubstr val hex width =
     (let type = getType val in
      if type = LLVMPointerType then Inr ''%p''
      else
        (case getIntOrFloatBitWidth type of
           Inl e \<Rightarrow> Inl e
         | Inr typeBits \<Rightarrow>
             if hex then
               Inr (''0x%0'' @ to_string_unsigned (typeBits div 4)
                    @ (if typeBits > 32 then ''ll'' else []) @ ''x'')
             else
               (let prefix = ''%'' @
                      (case width of
                         Some w \<Rightarrow> to_string w
                       | None \<Rightarrow>
                           (if hex then ''0'' @ to_string_unsigned (typeBits div 4) else []))
                in
                  if type = LLVMPointerType then Inr (prefix @ ''p'')
                  else if type = FloatType BF16 \<or> type = FloatType F16
                          \<or> type = FloatType F32 \<or> type = FloatType F64
                    then Inr (prefix @ ''f'')
                  else if isSignedInteger type then
                    (if typeBits = 64 then Inr (prefix @ ''lli'') else Inr (prefix @ ''i''))
                  else if isUnsignedInteger type \<or> isSignlessInteger type then
                    (if typeBits = 64 then Inr (prefix @ ''llu'') else Inr (prefix @ ''u''))
                  else Inl NotSupportedType)))"

section \<open>The rewriter and the emit primitive\<close>

text \<open>
  What the pattern leaves behind in the module, as far as printing goes: the format
  strings it has registered as globals, in order, and the formatted calls it has
  emitted, each with the handle of its format string (the position of the global) and
  its arguments.
\<close>

type_synonym handle = nat

record rewriter =
  globals :: "string list"
  calls :: "(handle \<times> Value list) list"

text \<open>
  Modelled from the spec: \<open>llPrintf\<close>, declared in Utility.h, which is not among the
  sources. The emit primitive, given text, registers it, emits the call and returns
  the handle of the registered text; given a handle, it emits the call against the
  text already registered.
\<close>

definition llPrintf :: "rewriter \<Rightarrow> string \<Rightarrow> Value list \<Rightarrow> handle \<times> rewriter" where
  "llPrintf rw msg args =
     (let h = length (globals rw)
      in (h, rw\<lparr>globals := globals rw @ [msg], calls := calls rw @ [(h, args)]\<rparr>))"

definition llPrintf_value :: "rewriter \<Rightarrow> handle \<Rightarrow> Value list \<Rightarrow> rewriter" where
  "llPrintf_value rw h args = rw\<lparr>calls := calls rw @ [(h, args)]\<rparr>"

text \<open>The lines a rewriter state prints: each call's format text and arguments.\<close>

definition emitted :: "rewriter \<Rightarrow> (string \<times> Value list) list" where
  "emitted rw = map (\<lambda>(h, args). (globals rw ! h, args)) (calls rw)"

section \<open>printTensor\<close>

definition kMaxPrintfOperands :: int where
  "kMaxPrintfOperands = 32"

text \<open>\<open>std::array<Value, 3> pid\<close>, and the order in which the loops walk it.\<close>

type_synonym pid = "Value \<times> Value \<times> Value"

fun pid_list :: "pid \<Rightarrow> Value list" where
  "pid_list (x, y, z) = [x, y, z]"

text \<open>
  The loop over \<open>pid\<close> (\<open>j\<close> counts the components done): a separator before every
  component but the first, the component's specifier, and the component pushed as an
  argument. The pair is the stream \<open>os\<close> and \<open>printfOperands\<close>.
\<close>

fun pidLoop :: "Value list \<Rightarrow> nat \<Rightarrow> string \<times> Value list \<Rightarrow> error + string \<times> Value list" where
  "pidLoop [] j acc = Inr acc"
| "pidLoop (p # ps) j (os, printfOperands) =
     (case getFormatSubstr p False None of
        Inl e \<Rightarrow> Inl e
      | Inr s \<Rightarrow>
          pidLoop ps (Suc j)
            (os @ (if j \<noteq> 0 then '', '' else []) @ s, printfOperands @ [p]))"

text \<open>
  The loop over one element's index, from component \<open>dim\<close> on. The separator comes
  first, then the test against \<open>maxAllowedRank\<close>, which writes the marker and leaves
  the loop; \<open>dimWidths[dim]\<close> is read (and its bound asserted) before the resolver is
  called.
\<close>

fun idxLoop ::
  "Value list \<Rightarrow> nat \<Rightarrow> int \<Rightarrow> int list \<Rightarrow> string \<times> Value list \<Rightarrow> error + string \<times> Value list"
where
  "idxLoop [] dim maxAllowedRank dimWidths acc = Inr acc"
| "idxLoop (v # vs) dim maxAllowedRank dimWidths (os, printfOperands) =
     (let os1 = os @ (if dim \<noteq> 0 then '', '' else []) in
      if int dim = maxAllowedRank then Inr (os1 @ ''... (truncated)'', printfOperands)
      else if \<not> dim < length dimWidths then Inl InvalidIndex
      else
        (case getFormatSubstr v False (Some (dimWidths ! dim)) of
           Inl e \<Rightarrow> Inl e
         | Inr s \<Rightarrow>
             idxLoop vs (Suc dim) maxAllowedRank dimWidths (os1 @ s, printfOperands @ [v])))"

text \<open>
  One iteration of the loop over the elements, up to the call of \<open>llPrintf\<close>: the
  format string and the arguments built for element \<open>elem\<close> with index \<open>index\<close>.
  \<open>maxAllowedRank\<close> is computed as the source computes it, from the number of operands
  pushed so far; \<open>pid\<close> has three components, so it is 27, and the source's comparison
  of the unsigned \<open>dim\<close> with it is a comparison of natural numbers.
\<close>

definition printTensor_body ::
  "Value \<Rightarrow> nat \<Rightarrow> nat \<Rightarrow> pid \<Rightarrow> int list \<Rightarrow> bool \<Rightarrow> Value \<Rightarrow> Value list
    \<Rightarrow> error + string \<times> Value list"
where
  "printTensor_body prefixStr operand numOperands pid dimWidths hex elem index =
     (case pidLoop (pid_list pid) 0 (''pid ('', []) of
        Inl e \<Rightarrow> Inl e
      | Inr (os1, ops1) \<Rightarrow>
          (let os2 = os1 @ '') '';
               maxAllowedRank = kMaxPrintfOperands - int (length ops1) - 2;
               os3 = os2 @ ''idx (''
           in
             case idxLoop index 0 maxAllowedRank dimWidths (os3, ops1) of
               Inl e \<Rightarrow> Inl e
             | Inr (os4, ops4) \<Rightarrow>
                 (let os5 = os4 @ '')'' @ ''%s'';
                      ops5 = ops4 @ [prefixStr];
                      os6 = (if numOperands > 1
                             then os5 @ ''(operand '' @ to_string_unsigned operand @ '') ''
                             else os5)
                  in
                    case getFormatSubstr elem hex None of
                      Inl e \<Rightarrow> Inl e
                    | Inr s \<Rightarrow> Inr (os6 @ s, ops5 @ [elem]))))"

text \<open>
  The loop over the elements, from iteration \<open>i\<close> on, over the elements paired with
  their indices. \<open>formatStrValue\<close> is null until iteration 0 has set it.
\<close>

fun printTensor_loop ::
  "Value \<Rightarrow> nat \<Rightarrow> nat \<Rightarrow> pid \<Rightarrow> int list \<Rightarrow> bool \<Rightarrow> nat \<Rightarrow> handle option
    \<Rightarrow> (Value \<times> Value list) list \<Rightarrow> rewriter \<Rightarrow> error + rewriter"
where
  "printTensor_loop prefixStr operand numOperands pid dimWidths hex i formatStrValue [] rw = Inr rw"
| "printTensor_loop prefixStr operand numOperands pid dimWidths hex i formatStrValue
     ((elem, index) # rest) rw =
     (case printTensor_body prefixStr operand numOperands pid dimWidths hex elem index of
        Inl e \<Rightarrow> Inl e
      | Inr (formatStr, printfOperands) \<Rightarrow>
          if i = 0 then
            (case llPrintf rw formatStr printfOperands of
               (h, rw') \<Rightarrow>
                 printTensor_loop prefixStr operand numOperands pid dimWidths hex (Suc i)
                   (Some h) rest rw')
          else
            (case formatStrValue of
               None \<Rightarrow> Inl NullFormatString
             | Some h \<Rightarrow>
                 printTensor_loop prefixStr operand numOperands pid dimWidths hex (Suc i)
                   formatStrValue rest (llPrintf_value rw h printfOperands)))"

definition printTensor ::
  "Value \<Rightarrow> nat \<Rightarrow> nat \<Rightarrow> Value list \<Rightarrow> pid \<Rightarrow> Value list list \<Rightarrow> int list \<Rightarrow> bool
    \<Rightarrow> rewriter \<Rightarrow> error + rewriter"
where
  "printTensor prefixStr operand numOperands elems pid indices dimWidths hex rw =
     (if elems = [] then Inl ElemsEmpty
      else if length elems \<noteq> length indices then Inl ElemsIndicesSizeMismatch
      else if length dimWidths \<noteq> length (hd indices) then Inl RankMismatch
      else
        printTensor_loop prefixStr operand numOperands pid dimWidths hex 0 None
          (zip elems indices) rw)"

section \<open>matchAndRewrite\<close>

text \<open>
  One operand as the pattern sees it: the shape of its type when that is a ranked
  tensor, the elements \<open>unpackLLElements\<close> returns for this thread, and the indices
  \<open>emitIndices\<close> returns for a ranked tensor.
\<close>

record Operand =
  rankedShape :: "int list option"
  unpackLLElements :: "Value list"
  emitIndices :: "Value list list"

text \<open>
  The width of one dimension. \<open>ceilLog10 dim\<close> stands for
  \<open>static_cast<int>(std::ceil(std::log10(dim)))\<close>, which the source computes in double
  precision; it is a parameter of the model.
\<close>

definition dimWidth :: "(int \<Rightarrow> int) \<Rightarrow> int \<Rightarrow> int" where
  "dimWidth ceilLog10 dim = (if dim > 0 then ceilLog10 dim else 0)"

text \<open>The loop over the operands, from operand \<open>i\<close> on.\<close>

fun operandLoop ::
  "(int \<Rightarrow> int) \<Rightarrow> Value \<Rightarrow> pid \<Rightarrow> nat \<Rightarrow> bool \<Rightarrow> nat \<Rightarrow> Operand list \<Rightarrow> rewriter
    \<Rightarrow> error + rewriter"
where
  "operandLoop ceilLog10 prefixStr pid numOperands hex i [] rw = Inr rw"
| "operandLoop ceilLog10 prefixStr pid numOperands hex i (opnd # rest) rw =
     (let elems = unpackLLElements opnd in
      case (case rankedShape opnd of
              Some shape \<Rightarrow> Inr (emitIndices opnd, map (dimWidth ceilLog10) shape)
            | None \<Rightarrow> if length elems \<noteq> 1 then Inl ScalarElemsSize else Inr ([[]], []))
      of
        Inl e \<Rightarrow> Inl e
      | Inr (indices, dimWidths) \<Rightarrow>
          if elems \<noteq> [] then
            (case printTensor prefixStr i numOperands elems pid indices dimWidths hex rw of
               Inl e \<Rightarrow> Inl e
             | Inr rw' \<Rightarrow> operandLoop ceilLog10 prefixStr pid numOperands hex (Suc i) rest rw')
          else operandLoop ceilLog10 prefixStr pid numOperands hex (Suc i) rest rw)"

text \<open>
  The pattern, with what its collaborators return as inputs: the prefix string's
  value, the three program ids, and the operands. A request without operands is one
  call; the stream writes the pieces in source order, so the first resolver that
  fails decides the error.
\<close>

definition matchAndRewrite ::
  "(int \<Rightarrow> int) \<Rightarrow> Value \<Rightarrow> pid \<Rightarrow> Operand list \<Rightarrow> bool \<Rightarrow> rewriter \<Rightarrow> error + rewriter"
where
  "matchAndRewrite ceilLog10 prefixStr pid operands hex rw =
     (if length operands = 0 then
        (case pid of (pid0, pid1, pid2) \<Rightarrow>
           (case getFormatSubstr pid0 False None of
              Inl e \<Rightarrow> Inl e
            | Inr s0 \<Rightarrow>
                (case getFormatSubstr pid1 False None of
                   Inl e \<Rightarrow> Inl e
                 | Inr s1 \<Rightarrow>
                     (case getFormatSubstr pid2 False None of
                        Inl e \<Rightarrow> Inl e
                      | Inr s2 \<Rightarrow>
                          Inr (snd (llPrintf rw
                                 (''pid ('' @ s0 @ '', '' @ s1 @ '', '' @ s2 @ '')%s'')
                                 [pid0, pid1, pid2, prefixStr]))))))
      else operandLoop ceilLog10 prefixStr pid (length operands) hex 0 operands rw)"

section \<open>Auxiliary notions for the statements\<close>

text \<open>The text before the conversion letter in decimal mode: the percent sign and the width, if any.\<close>

abbreviation decimal_prefix :: "int option \<Rightarrow> string" where
  "decimal_prefix width \<equiv> ''%'' @ (case width of Some n \<Rightarrow> to_string n | None \<Rightarrow> [])"

text \<open>A list of pieces written with \<open>", "\<close> between neighbours, as the loops write them.\<close>

fun join :: "string list \<Rightarrow> string" where
  "join [] = []"
| "join [s] = s"
| "join (s # t # ss) = s @ '', '' @ join (t # ss)"

definition sep :: "nat \<Rightarrow> string" where
  "sep dim = (if dim \<noteq> 0 then '', '' else [])"

definition joinFrom :: "nat \<Rightarrow> string list \<Rightarrow> string" where
  "joinFrom dim items = (if items = [] then [] else sep dim @ join items)"

text \<open>The operand tag as \<open>printTensor\<close> writes it: present only when there are several operands.\<close>

definition operandTag :: "nat \<Rightarrow> nat \<Rightarrow> string" where
  "operandTag numOperands operand =
     (if numOperands > 1 then ''(operand '' @ to_string_unsigned operand @ '') '' else [])"

text \<open>The argument list of one element's call: program ids, the index cut at 27, prefix, element.\<close>

abbreviation elemArgs :: "Value \<Rightarrow> pid \<Rightarrow> Value \<times> Value list \<Rightarrow> Value list" where
  "elemArgs prefixStr pid \<equiv> (\<lambda>(elem, index). pid_list pid @ take 27 index @ [prefixStr, elem])"

text \<open>
  The index lists the operand loop hands to \<open>printTensor\<close>: those of \<open>emitIndices\<close> for a
  ranked tensor, one empty index for a scalar; and, with them, the widths.
\<close>

definition operandIndices :: "Operand \<Rightarrow> Value list list" where
  "operandIndices opnd = (case rankedShape opnd of Some shape \<Rightarrow> emitIndices opnd | None \<Rightarrow> [[]])"

definition operandLayout ::
  "(int \<Rightarrow> int) \<Rightarrow> Operand \<Rightarrow> error + Value list list \<times> int list"
where
  "operandLayout ceilLog10 opnd =
     (case rankedShape opnd of
        Some shape \<Rightarrow> Inr (emitIndices opnd, map (dimWidth ceilLog10) shape)
      | None \<Rightarrow>
          if length (unpackLLElements opnd) \<noteq> 1 then Inl ScalarElemsSize else Inr ([[]], []))"

definition requestArgs :: "Value \<Rightarrow> pid \<Rightarrow> Operand list \<Rightarrow> Value list list" where
  "requestArgs prefixStr pid operands =
     concat (map (\<lambda>opnd. map (\<lambda>(elem, index). pid_list pid @ take 27 index @ [prefixStr, elem])
                           (zip (unpackLLElements opnd) (operandIndices opnd)))
               operands)"

subsection \<open>What a request emits, apart from the rewriter\<close>

text \<open>
  The loops thread the rewriter through every call. For the proofs the same computation
  is written once more without it: every operand that prints yields a group, its format
  string with the argument lists of its elements, and \<open>commit\<close> adds a group to a
  rewriter. The lemmas \<open>printTensor_eq\<close>, \<open>operandLoop_eq\<close> and \<open>matchAndRewrite_eq\<close>
  below prove that the functions above are these followed by \<open>commit\<close>.
\<close>

fun collect :: "('e + 'a) list \<Rightarrow> 'e + 'a list" where
  "collect [] = Inr []"
| "collect (r # rs) =
     (case r of
        Inl e \<Rightarrow> Inl e
      | Inr x \<Rightarrow> (case collect rs of Inl e \<Rightarrow> Inl e | Inr xs \<Rightarrow> Inr (x # xs)))"

type_synonym group = "string \<times> Value list list"

definition commit :: "rewriter \<Rightarrow> group \<Rightarrow> rewriter" where
  "commit rw g =
     rw\<lparr>globals := globals rw @ [fst g],
        calls := calls rw @ map (Pair (length (globals rw))) (snd g)\<rparr>"

definition printTensor_out ::
  "Value \<Rightarrow> nat \<Rightarrow> nat \<Rightarrow> Value list \<Rightarrow> pid \<Rightarrow> Value list list \<Rightarrow> int list \<Rightarrow> bool
    \<Rightarrow> error + group"
where
  "printTensor_out prefixStr operand numOperands elems pid indices dimWidths hex =
     (if elems = [] then Inl ElemsEmpty
      else if length elems \<noteq> length indices then Inl ElemsIndicesSizeMismatch
      else if length dimWidths \<noteq> length (hd indices) then Inl RankMismatch
      else
        (case collect
                (map (\<lambda>(elem, index).
                        printTensor_body prefixStr operand numOperands pid dimWidths hex elem index)
                   (zip elems indices))
         of
           Inl e \<Rightarrow> Inl e
         | Inr rs \<Rightarrow> Inr (fst (hd rs), map snd rs)))"

fun operands_out ::
  "(int \<Rightarrow> int) \<Rightarrow> Value \<Rightarrow> pid \<Rightarrow> nat \<Rightarrow> bool \<Rightarrow> nat \<Rightarrow> Operand list
    \<Rightarrow> error + group list"
where
  "operands_out ceilLog10 prefixStr pid numOperands hex i [] = Inr []"
| "operands_out ceilLog10 prefixStr pid numOperands hex i (opnd # rest) =
     (case operandLayout ceilLog10 opnd of
        Inl e \<Rightarrow> Inl e
      | Inr (indices, dimWidths) \<Rightarrow>
          if unpackLLElements opnd \<noteq> [] then
            (case printTensor_out prefixStr i numOperands (unpackLLElements opnd) pid indices
                    dimWidths hex
             of
               Inl e \<Rightarrow> Inl e
             | Inr g \<Rightarrow>
                 (case operands_out ceilLog10 prefixStr pid numOperands hex (Suc i) rest of
                    Inl e \<Rightarrow> Inl e
                  | Inr gs \<Rightarrow> Inr (g # gs)))
          else operands_out ceilLog10 prefixStr pid numOperands hex (Suc i) rest)"

definition request_out ::
  "(int \<Rightarrow> int) \<Rightarrow> Value \<Rightarrow> pid \<Rightarrow> Operand list \<Rightarrow> bool \<Rightarrow> error + group list"
where
  "request_out ceilLog10 prefixStr pid operands hex =
     (if operands = [] then
        (case collect (map (\<lambda>p. getFormatSubstr p False None) (pid_list pid)) of
           Inl e \<Rightarrow> Inl e
         | Inr ss \<Rightarrow>
             Inr [(''pid ('' @ ss ! 0 @ '', '' @ ss ! 1 @ '', '' @ ss ! 2 @ '')%s'',
                   [pid_list pid @ [prefixStr]])])
      else operands_out ceilLog10 prefixStr pid (length operands) hex 0 operands)"

definition lines :: "group list \<Rightarrow> (string \<times> Value list) list" where
  "lines gs = concat (map (\<lambda>g. map (Pair (fst g)) (snd g)) gs)"

subsection \<open>Example inputs\<close>

text \<open>
  The exact value of the ceiling of the decimal logarithm, for \<open>n \<ge> 1\<close>; it takes the
  place of the double-precision computation in the examples, whose sizes are small.
\<close>

function ceilLog10_exact :: "int \<Rightarrow> int" where
  "ceilLog10_exact n = (if n \<le> 1 then 0 else 1 + ceilLog10_exact ((n + 9) div 10))"
  by pat_completeness auto
termination
  by (relation "measure nat") auto

declare ceilLog10_exact.simps [simp del]

definition i32 :: "nat \<Rightarrow> Value" where
  "i32 n = \<lparr>getType = IntegerType Signless 32, ident = n\<rparr>"

definition f32 :: "nat \<Rightarrow> Value" where
  "f32 n = \<lparr>getType = FloatType F32, ident = n\<rparr>"

definition ptr :: "nat \<Rightarrow> Value" where
  "ptr n = \<lparr>getType = LLVMPointerType, ident = n\<rparr>"

definition emptyRewriter :: rewriter where
  "emptyRewriter = \<lparr>globals = [], calls = []\<rparr>"

definition matrixOperand :: Operand where
  "matrixOperand =
     \<lparr>rankedShape = Some [4, 4], unpackLLElements = [f32 50, f32 51],
      emitIndices = [[i32 10, i32 11], [i32 12, i32 13]]\<rparr>"

definition scalarOperand :: Operand where
  "scalarOperand = \<lparr>rankedShape = None, unpackLLElements = [f32 52], emitIndices = []\<rparr>"

definition emptyOperand :: Operand where
  "emptyOperand = \<lparr>rankedShape = Some [0], unpackLLElements = [], emitIndices = []\<rparr>"

section \<open>Facts about the model\<close>

subsection \<open>Specifiers\<close>

lemma digit_mem: "digit n \<in> set ''0123456789''"
  unfolding digit_def by (rule nth_mem) simp

lemma digit_not_o: "digit n \<noteq> CHR ''o''"
  using digit_mem [of n] by auto

lemma to_string_unsigned_no_o: "CHR ''o'' \<notin> set (to_string_unsigned n)"
proof (induction n rule: to_string_unsigned.induct)
  case (1 n)
  show ?case
  proof (cases "n < 10")
    case True
    then show ?thesis using digit_not_o [of n] by (subst to_string_unsigned.simps) simp
  next
    case False
    then show ?thesis using 1 digit_not_o [of n] by (subst to_string_unsigned.simps) simp
  qed
qed

lemma to_string_no_o: "CHR ''o'' \<notin> set (to_string i)"
  using to_string_unsigned_no_o by (simp add: to_string_def)

lemma decimal_prefix_no_o: "CHR ''o'' \<notin> set (decimal_prefix width)"
  using to_string_no_o by (cases width) simp_all

lemma getFormatSubstr_no_o:
  assumes "getFormatSubstr v hex width = Inr s"
  shows "CHR ''o'' \<notin> set s"
proof (cases "getType v = LLVMPointerType")
  case True
  with assms show ?thesis by (auto simp: getFormatSubstr_def)
next
  case False
  then obtain w where w: "getIntOrFloatBitWidth (getType v) = Inr w"
    using assms by (auto simp: getFormatSubstr_def Let_def split: sum.splits)
  show ?thesis
  proof (cases hex)
    case True
    with False w assms have "s = ''0x%0'' @ to_string_unsigned (w div 4) @ (if w > 32 then ''ll'' else []) @ ''x''"
      by (simp add: getFormatSubstr_def Let_def)
    then show ?thesis using to_string_unsigned_no_o [of "w div 4"] by simp
  next
    case hf: False
    with False w assms have "\<exists>l \<in> {''f'', ''lli'', ''i'', ''llu'', ''u''}. s = decimal_prefix width @ l"
      by (auto simp: getFormatSubstr_def Let_def split: if_splits option.splits)
    then show ?thesis using decimal_prefix_no_o [of width] by auto
  qed
qed

lemma getFormatSubstr_type:
  "getType v = getType v' \<Longrightarrow> getFormatSubstr v hex width = getFormatSubstr v' hex width"
  by (simp add: getFormatSubstr_def)

subsection \<open>One element's format string and arguments\<close>

lemma pidLoop_three:
  "pidLoop [x, y, z] 0 (os, ops) =
     (case getFormatSubstr x False None of
        Inl e \<Rightarrow> Inl e
      | Inr sx \<Rightarrow>
          (case getFormatSubstr y False None of
             Inl e \<Rightarrow> Inl e
           | Inr sy \<Rightarrow>
               (case getFormatSubstr z False None of
                  Inl e \<Rightarrow> Inl e
                | Inr sz \<Rightarrow> Inr (os @ sx @ '', '' @ sy @ '', '' @ sz, ops @ [x, y, z]))))"
  by (simp split: sum.splits)

lemma joinFrom_Cons: "joinFrom dim (s # items) = sep dim @ s @ joinFrom (Suc dim) items"
  by (cases items) (simp_all add: joinFrom_def sep_def)

lemma joinFrom_0: "joinFrom 0 items = join items"
  by (simp add: joinFrom_def sep_def)

lemma idxLoop_Inr:
  assumes "idxLoop index dim (int M) dw (os, ops) = Inr (os', ops')" and "dim \<le> M"
  shows "\<exists>specs. length specs = min (length index) (M - dim)
           \<and> (\<forall>k<length specs. dim + k < length dw
                 \<and> getFormatSubstr (index ! k) False (Some (dw ! (dim + k))) = Inr (specs ! k))
           \<and> ops' = ops @ take (M - dim) index
           \<and> os' = os @ joinFrom dim
                      (specs @ (if length index > M - dim then [''... (truncated)''] else []))"
  using assms
proof (induction index arbitrary: dim os ops)
  case Nil
  then show ?case by (simp add: joinFrom_def)
next
  case (Cons v vs)
  show ?case
  proof (cases "dim = M")
    case True
    with Cons.prems have "os' = os @ sep dim @ ''... (truncated)''" "ops' = ops"
      by (simp_all add: Let_def sep_def)
    then show ?thesis using True
      by (intro exI [of _ "[]"]) (simp add: joinFrom_def)
  next
    case False
    with Cons.prems have lt: "dim < M" by simp
    from Cons.prems False have dw: "dim < length dw"
      by (simp add: Let_def split: if_splits)
    from Cons.prems False dw obtain s where
      s: "getFormatSubstr v False (Some (dw ! dim)) = Inr s"
      and rec: "idxLoop vs (Suc dim) (int M) dw (os @ sep dim @ s, ops @ [v]) = Inr (os', ops')"
      by (auto simp: Let_def sep_def split: sum.splits)
    from Cons.IH [OF rec] lt obtain specs where
      len: "length specs = min (length vs) (M - Suc dim)"
      and each: "\<forall>k<length specs. Suc dim + k < length dw
                 \<and> getFormatSubstr (vs ! k) False (Some (dw ! (Suc dim + k))) = Inr (specs ! k)"
      and ops: "ops' = (ops @ [v]) @ take (M - Suc dim) vs"
      and os: "os' = (os @ sep dim @ s) @ joinFrom (Suc dim)
                      (specs @ (if length vs > M - Suc dim then [''... (truncated)''] else []))"
      by auto
    have m: "M - dim = Suc (M - Suc dim)" using lt by simp
    have 1: "length (s # specs) = min (length (v # vs)) (M - dim)"
      using len m by simp
    have 2: "\<forall>k<length (s # specs). dim + k < length dw
                 \<and> getFormatSubstr ((v # vs) ! k) False (Some (dw ! (dim + k))) = Inr ((s # specs) ! k)"
    proof (intro allI impI)
      fix k assume "k < length (s # specs)"
      then show "dim + k < length dw
                 \<and> getFormatSubstr ((v # vs) ! k) False (Some (dw ! (dim + k))) = Inr ((s # specs) ! k)"
        using each s dw by (cases k) auto
    qed
    have 3: "ops' = ops @ take (M - dim) (v # vs)"
      using ops m by simp
    have 4: "os' = os @ joinFrom dim
                      ((s # specs) @ (if length (v # vs) > M - dim then [''... (truncated)''] else []))"
      using os m by (simp add: joinFrom_Cons)
    from 1 2 3 4 show ?thesis by blast
  qed
qed

lemma printTensor_body_Inr:
  assumes "printTensor_body prefixStr operand numOperands (x, y, z) dimWidths hex elem index
             = Inr (fmt, args)"
  shows "\<exists>sx sy sz specs se.
           getFormatSubstr x False None = Inr sx
         \<and> getFormatSubstr y False None = Inr sy
         \<and> getFormatSubstr z False None = Inr sz
         \<and> getFormatSubstr elem hex None = Inr se
         \<and> length specs = min (length index) 27
         \<and> (\<forall>k<length specs. k < length dimWidths
               \<and> getFormatSubstr (index ! k) False (Some (dimWidths ! k)) = Inr (specs ! k))
         \<and> fmt = ''pid ('' @ sx @ '', '' @ sy @ '', '' @ sz @ '') idx (''
                 @ join (specs @ (if length index > 27 then [''... (truncated)''] else []))
                 @ '')%s'' @ operandTag numOperands operand @ se
         \<and> args = [x, y, z] @ take 27 index @ [prefixStr, elem]"
proof -
  from assms obtain sx sy sz where
    sx: "getFormatSubstr x False None = Inr sx" and
    sy: "getFormatSubstr y False None = Inr sy" and
    sz: "getFormatSubstr z False None = Inr sz"
    by (auto simp: printTensor_body_def pidLoop_three simp del: pidLoop.simps split: sum.splits)
  let ?os3 = "''pid ('' @ sx @ '', '' @ sy @ '', '' @ sz @ '') '' @ ''idx (''"
  from assms sx sy sz obtain os4 ops4 se where
    idx: "idxLoop index 0 (int 27) dimWidths (?os3, [x, y, z]) = Inr (os4, ops4)" and
    se: "getFormatSubstr elem hex None = Inr se" and
    fmt: "fmt = os4 @ '')'' @ ''%s'' @ operandTag numOperands operand @ se" and
    args: "args = ops4 @ [prefixStr] @ [elem]"
    by (auto simp: printTensor_body_def pidLoop_three kMaxPrintfOperands_def Let_def
          operandTag_def simp del: pidLoop.simps idxLoop.simps split: sum.splits if_splits)
  from idxLoop_Inr [OF idx] obtain specs where
    "length specs = min (length index) 27"
    "\<forall>k<length specs. k < length dimWidths
        \<and> getFormatSubstr (index ! k) False (Some (dimWidths ! k)) = Inr (specs ! k)"
    "ops4 = [x, y, z] @ take 27 index"
    "os4 = ?os3 @ join (specs @ (if length index > 27 then [''... (truncated)''] else []))"
    by (auto simp: joinFrom_0)
  with sx sy sz se fmt args show ?thesis
    by (intro exI [of _ sx] exI [of _ sy] exI [of _ sz] exI [of _ specs] exI [of _ se]) simp
qed

lemma printTensor_body_args:
  assumes "printTensor_body prefixStr operand numOperands pid dimWidths hex elem index
             = Inr (fmt, args)"
  shows "args = pid_list pid @ take 27 index @ [prefixStr, elem]"
proof -
  obtain x y z where pid: "pid = (x, y, z)" by (cases pid) auto
  from printTensor_body_Inr [OF assms [unfolded pid]] show ?thesis
    by (auto simp: pid)
qed

lemma idxLoop_types:
  assumes "map getType index = map getType index'"
  shows "map_sum id fst (idxLoop index dim M dw (os, ops))
           = map_sum id fst (idxLoop index' dim M dw (os, ops2))"
  using assms
proof (induction index arbitrary: index' dim os ops ops2)
  case Nil
  then show ?case by simp
next
  case (Cons v vs)
  then obtain v' vs' where i': "index' = v' # vs'" and tv: "getType v = getType v'"
    and tvs: "map getType vs = map getType vs'"
    by (cases index') auto
  show ?case
    using Cons.IH [OF tvs] getFormatSubstr_type [OF tv]
    by (simp add: i' Let_def split: sum.splits)
qed

lemma printTensor_body_types:
  assumes "getType elem = getType elem'" and "map getType index = map getType index'"
  shows "map_sum id fst (printTensor_body prefixStr operand numOperands pid dimWidths hex elem index)
           = map_sum id fst
               (printTensor_body prefixStr operand numOperands pid dimWidths hex elem' index')"
proof (cases "pidLoop (pid_list pid) 0 (''pid ('', [])")
  case (Inl e)
  then show ?thesis by (simp add: printTensor_body_def)
next
  case (Inr r)
  obtain os1 ops1 where r: "r = (os1, ops1)" by (cases r) auto
  let ?M = "kMaxPrintfOperands - int (length ops1) - 2"
  let ?os3 = "(os1 @ '') '') @ ''idx (''"
  have e: "getFormatSubstr elem hex None = getFormatSubstr elem' hex None"
    using assms(1) by (rule getFormatSubstr_type)
  have i: "map_sum id fst (idxLoop index 0 ?M dimWidths (?os3, ops1))
             = map_sum id fst (idxLoop index' 0 ?M dimWidths (?os3, ops1))"
    using assms(2) by (rule idxLoop_types)
  show ?thesis
  proof (cases "idxLoop index 0 ?M dimWidths (?os3, ops1)")
    case (Inl e1)
    with i have "idxLoop index' 0 ?M dimWidths (?os3, ops1) = Inl e1"
      by (cases "idxLoop index' 0 ?M dimWidths (?os3, ops1)") auto
    with Inl Inr r show ?thesis
      by (simp add: printTensor_body_def Let_def del: idxLoop.simps)
  next
    case right: (Inr q)
    obtain os4 ops4 where q: "q = (os4, ops4)" by (cases q) auto
    with i right obtain ops4' where
      "idxLoop index' 0 ?M dimWidths (?os3, ops1) = Inr (os4, ops4')"
      by (cases "idxLoop index' 0 ?M dimWidths (?os3, ops1)") auto
    with right q Inr r e show ?thesis
      by (simp add: printTensor_body_def Let_def del: idxLoop.simps split: sum.splits)
  qed
qed

lemma join_avoids:
  assumes "c \<notin> set '', ''" and "\<forall>s\<in>set items. c \<notin> set s"
  shows "c \<notin> set (join items)"
  using assms(2)
proof (induction items rule: join.induct)
  case 1
  then show ?case by simp
next
  case (2 s)
  then show ?case by simp
next
  case (3 s t ss)
  then show ?case using assms(1) by simp
qed

lemma printTensor_body_tag:
  assumes "printTensor_body prefixStr operand numOperands pid dimWidths hex elem index
             = Inr (fmt, args)"
  shows "\<exists>pre se. fmt = pre @ operandTag numOperands operand @ se
           \<and> CHR ''o'' \<notin> set pre \<and> CHR ''o'' \<notin> set se"
proof -
  obtain x y z where pid: "pid = (x, y, z)" by (cases pid) auto
  from printTensor_body_Inr [OF assms [unfolded pid]] obtain sx sy sz specs se where
    s: "getFormatSubstr x False None = Inr sx" "getFormatSubstr y False None = Inr sy"
       "getFormatSubstr z False None = Inr sz" "getFormatSubstr elem hex None = Inr se"
    and each: "\<forall>k<length specs. k < length dimWidths
               \<and> getFormatSubstr (index ! k) False (Some (dimWidths ! k)) = Inr (specs ! k)"
    and fmt: "fmt = ''pid ('' @ sx @ '', '' @ sy @ '', '' @ sz @ '') idx (''
                 @ join (specs @ (if length index > 27 then [''... (truncated)''] else []))
                 @ '')%s'' @ operandTag numOperands operand @ se"
    by blast
  let ?items = "specs @ (if length index > 27 then [''... (truncated)''] else [])"
  let ?pre = "''pid ('' @ sx @ '', '' @ sy @ '', '' @ sz @ '') idx ('' @ join ?items @ '')%s''"
  have sp: "CHR ''o'' \<notin> set s" if "s \<in> set specs" for s
  proof -
    from that obtain k where "k < length specs" "s = specs ! k"
      by (auto simp: in_set_conv_nth)
    with each have "getFormatSubstr (index ! k) False (Some (dimWidths ! k)) = Inr s" by simp
    then show ?thesis by (rule getFormatSubstr_no_o)
  qed
  have "\<forall>s\<in>set ?items. CHR ''o'' \<notin> set s" using sp by auto
  then have j: "CHR ''o'' \<notin> set (join ?items)" by (intro join_avoids) simp_all
  have p: "CHR ''o'' \<notin> set ?pre"
    using j getFormatSubstr_no_o [OF s(1)] getFormatSubstr_no_o [OF s(2)]
      getFormatSubstr_no_o [OF s(3)] by simp
  have f: "fmt = ?pre @ operandTag numOperands operand @ se" using fmt by simp
  from f p getFormatSubstr_no_o [OF s(4)] show ?thesis by blast
qed

lemma elemArgs_length: "length (elemArgs prefixStr pid p) \<le> 32"
  by (cases p; cases pid) auto

subsection \<open>The loops and the rewriter\<close>

lemma collect_map_Inr: "collect (map Inr xs) = Inr xs"
  by (induction xs) simp_all

lemma collect_Inr_D: "collect rs = Inr xs \<Longrightarrow> rs = map Inr xs"
proof (induction rs arbitrary: xs)
  case Nil
  then show ?case by simp
next
  case (Cons r rs)
  from Cons.prems obtain x xs' where "r = Inr x" "collect rs = Inr xs'" "xs = x # xs'"
    by (auto split: sum.splits)
  with Cons.IH [of xs'] show ?case by simp
qed

lemma collect_Inr_iff: "collect rs = Inr xs \<longleftrightarrow> rs = map Inr xs"
  using collect_map_Inr collect_Inr_D by blast

lemma printTensor_loop_tail:
  assumes "i \<noteq> 0"
  shows "printTensor_loop prefixStr operand numOperands pid dimWidths hex i (Some h) rest rw
           = (case collect
                     (map (\<lambda>(elem, index).
                        printTensor_body prefixStr operand numOperands pid dimWidths hex elem index)
                        rest)
              of
                Inl e \<Rightarrow> Inl e
              | Inr rs \<Rightarrow> Inr (rw\<lparr>calls := calls rw @ map (Pair h) (map snd rs)\<rparr>))"
  using assms
proof (induction rest arbitrary: i rw)
  case Nil
  then show ?case by simp
next
  case (Cons p rest)
  obtain elem index where p: "p = (elem, index)" by (cases p) auto
  show ?case
  proof (cases "printTensor_body prefixStr operand numOperands pid dimWidths hex elem index")
    case (Inl e)
    then show ?thesis by (simp add: p)
  next
    case (Inr r)
    obtain f a where r: "r = (f, a)" by (cases r) auto
    have "Suc i \<noteq> 0" by simp
    from Cons.IH [OF this, of "llPrintf_value rw h a"] Inr r Cons.prems show ?thesis
      by (simp add: p llPrintf_value_def split: sum.splits)
  qed
qed

lemma printTensor_loop_head:
  "printTensor_loop prefixStr operand numOperands pid dimWidths hex 0 None rest rw
     = (case collect
               (map (\<lambda>(elem, index).
                  printTensor_body prefixStr operand numOperands pid dimWidths hex elem index)
                  rest)
        of
          Inl e \<Rightarrow> Inl e
        | Inr rs \<Rightarrow> Inr (if rs = [] then rw else commit rw (fst (hd rs), map snd rs)))"
proof (cases rest)
  case Nil
  then show ?thesis by simp
next
  case (Cons p rest')
  obtain elem index where p: "p = (elem, index)" by (cases p) auto
  show ?thesis
  proof (cases "printTensor_body prefixStr operand numOperands pid dimWidths hex elem index")
    case (Inl e)
    then show ?thesis by (simp add: Cons p)
  next
    case (Inr r)
    obtain f a where r: "r = (f, a)" by (cases r) auto
    have "Suc 0 \<noteq> 0" by simp
    from printTensor_loop_tail [OF this, of prefixStr operand numOperands pid dimWidths hex
        "length (globals rw)" rest'
        "rw\<lparr>globals := globals rw @ [f], calls := calls rw @ [(length (globals rw), a)]\<rparr>"]
      Inr r
    show ?thesis
      by (simp add: Cons p llPrintf_def commit_def Let_def split: sum.splits)
  qed
qed

lemma printTensor_eq:
  "printTensor prefixStr operand numOperands elems pid indices dimWidths hex rw
     = map_sum id (commit rw)
         (printTensor_out prefixStr operand numOperands elems pid indices dimWidths hex)"
proof (cases "elems \<noteq> [] \<and> length elems = length indices")
  case False
  then show ?thesis by (auto simp: printTensor_def printTensor_out_def)
next
  case True
  then have z: "zip elems indices \<noteq> []" by (cases elems; cases indices) auto
  have "rs \<noteq> []" if "collect (map f (zip elems indices)) = Inr rs" for rs :: "(string \<times> Value list) list" and f
    using that z by (auto simp: collect_Inr_iff)
  then show ?thesis
    by (auto simp: printTensor_def printTensor_out_def printTensor_loop_head split: sum.splits)
qed

lemma operandLoop_eq:
  "operandLoop ceilLog10 prefixStr pid numOperands hex i operands rw
     = map_sum id (foldl commit rw)
         (operands_out ceilLog10 prefixStr pid numOperands hex i operands)"
proof (induction operands arbitrary: i rw)
  case Nil
  then show ?case by simp
next
  case (Cons opnd rest)
  show ?case
    by (simp add: Cons.IH printTensor_eq operandLayout_def Let_def
          split: sum.splits option.splits prod.splits)
qed

lemma matchAndRewrite_eq:
  "matchAndRewrite ceilLog10 prefixStr pid operands hex rw
     = map_sum id (foldl commit rw) (request_out ceilLog10 prefixStr pid operands hex)"
proof (cases "operands = []")
  case False
  then show ?thesis
    by (simp add: matchAndRewrite_def request_out_def operandLoop_eq)
next
  case True
  obtain x y z where pid: "pid = (x, y, z)" by (cases pid) auto
  show ?thesis
    by (simp add: True pid matchAndRewrite_def request_out_def llPrintf_def commit_def Let_def
          split: sum.splits)
qed

lemma globals_foldl_commit: "globals (foldl commit rw gs) = globals rw @ map fst gs"
  by (induction gs arbitrary: rw) (simp_all add: commit_def)

lemma calls_foldl_commit:
  "\<exists>cs. calls (foldl commit rw gs) = calls rw @ cs
        \<and> map snd cs = concat (map snd gs)
        \<and> (\<forall>c\<in>set cs. fst c < length (globals rw) + length gs)
        \<and> map (\<lambda>(h, args). ((globals rw @ map fst gs) ! h, args)) cs = lines gs"
proof (induction gs rule: rev_induct)
  case Nil
  then show ?case by (simp add: lines_def)
next
  case (snoc g gs)
  then obtain cs where cs: "calls (foldl commit rw gs) = calls rw @ cs"
    and args: "map snd cs = concat (map snd gs)"
    and bound: "\<forall>c\<in>set cs. fst c < length (globals rw) + length gs"
    and old: "map (\<lambda>(h, args). ((globals rw @ map fst gs) ! h, args)) cs = lines gs"
    by blast
  let ?n = "length (globals rw) + length gs"
  let ?G = "globals rw @ map fst gs"
  let ?cs = "cs @ map (Pair ?n) (snd g)"
  have 1: "calls (foldl commit rw (gs @ [g])) = calls rw @ ?cs"
    by (simp add: commit_def cs globals_foldl_commit)
  have 2: "map snd ?cs = concat (map snd (gs @ [g]))"
    by (simp add: args comp_def)
  have 3: "\<forall>c\<in>set ?cs. fst c < length (globals rw) + length (gs @ [g])"
    using bound by auto
  have a: "map (\<lambda>(h, args). ((?G @ [fst g]) ! h, args)) cs = lines gs"
  proof -
    have "map (\<lambda>(h, args). ((?G @ [fst g]) ! h, args)) cs
            = map (\<lambda>(h, args). (?G ! h, args)) cs"
    proof (intro map_cong refl)
      fix c assume c: "c \<in> set cs"
      with bound have "fst c < length ?G" by simp
      then have "(?G @ [fst g]) ! fst c = ?G ! fst c" by (rule nth_append_left)
      then show "(case c of (h, args) \<Rightarrow> ((?G @ [fst g]) ! h, args))
                   = (case c of (h, args) \<Rightarrow> (?G ! h, args))"
        by (cases c) simp
    qed
    with old show ?thesis by simp
  qed
  have n: "(?G @ [fst g]) ! ?n = fst g"
    using nth_append_length [of ?G "fst g" "[]"] by simp
  have b: "map (\<lambda>(h, args). ((?G @ [fst g]) ! h, args)) (map (Pair ?n) (snd g))
             = map (Pair (fst g)) (snd g)"
    using n by (simp add: comp_def)
  have 4: "map (\<lambda>(h, args). ((globals rw @ map fst (gs @ [g])) ! h, args)) ?cs
             = lines (gs @ [g])"
    using a b by (simp add: lines_def)
  from 1 2 3 4 show ?case by blast
qed

lemma emitted_foldl_commit:
  "drop (length (calls rw)) (emitted (foldl commit rw gs)) = lines gs"
proof -
  obtain cs where cs: "calls (foldl commit rw gs) = calls rw @ cs"
    and l: "map (\<lambda>(h, args). ((globals rw @ map fst gs) ! h, args)) cs = lines gs"
    using calls_foldl_commit [of rw gs] by blast
  show ?thesis
    by (simp add: emitted_def cs globals_foldl_commit l)
qed

lemma new_calls_foldl_commit:
  "map snd (drop (length (calls rw)) (calls (foldl commit rw gs))) = concat (map snd gs)"
  using calls_foldl_commit [of rw gs] by auto

lemma printTensor_out_Inr:
  assumes "printTensor_out prefixStr operand numOperands elems pid indices dimWidths hex = Inr g"
  shows "elems \<noteq> []" and "length elems = length indices"
    and "length dimWidths = length (hd indices)"
    and "\<exists>a. printTensor_body prefixStr operand numOperands pid dimWidths hex (hd elems) (hd indices)
              = Inr (fst g, a)"
    and "snd g = map (elemArgs prefixStr pid) (zip elems indices)"
proof -
  let ?body = "\<lambda>(elem, index).
                 printTensor_body prefixStr operand numOperands pid dimWidths hex elem index"
  from assms show ne: "elems \<noteq> []" and len: "length elems = length indices"
    and "length dimWidths = length (hd indices)"
    by (auto simp: printTensor_out_def split: if_splits)
  from assms ne len obtain rs where rs: "collect (map ?body (zip elems indices)) = Inr rs"
    and g: "g = (fst (hd rs), map snd rs)"
    by (auto simp: printTensor_out_def split: if_splits sum.splits)
  from rs have m: "map ?body (zip elems indices) = map Inr rs" by (rule collect_Inr_D)
  from ne len obtain e es i0 ixs where ei: "elems = e # es" "indices = i0 # ixs"
    by (cases elems; cases indices) auto
  with m obtain r rs' where r: "rs = r # rs'" "?body (e, i0) = Inr r" by (cases rs) auto
  then show "\<exists>a. printTensor_body prefixStr operand numOperands pid dimWidths hex (hd elems)
                (hd indices) = Inr (fst g, a)"
    by (cases r) (simp add: g ei)
  have "map snd rs = map (elemArgs prefixStr pid) (zip elems indices)"
  proof (rule nth_equalityI)
    show l: "length (map snd rs) = length (map (elemArgs prefixStr pid) (zip elems indices))"
      using arg_cong [OF m, of length] by simp
    fix k assume "k < length (map snd rs)"
    with l have k: "k < length rs" "k < length (zip elems indices)" by simp_all
    obtain el ix where z: "zip elems indices ! k = (el, ix)" by (cases "zip elems indices ! k") auto
    from arg_cong [OF m, of "\<lambda>xs. xs ! k"] k z
    have "printTensor_body prefixStr operand numOperands pid dimWidths hex el ix = Inr (rs ! k)"
      by simp
    then have "printTensor_body prefixStr operand numOperands pid dimWidths hex el ix
                 = Inr (fst (rs ! k), snd (rs ! k))" by simp
    from printTensor_body_args [OF this] k z
    show "map snd rs ! k = map (elemArgs prefixStr pid) (zip elems indices) ! k" by simp
  qed
  then show "snd g = map (elemArgs prefixStr pid) (zip elems indices)" by (simp add: g)
qed

lemma printTensor_Inr:
  assumes "printTensor prefixStr operand numOperands elems pid indices dimWidths hex rw = Inr rw'"
  shows "\<exists>fmt a. elems \<noteq> [] \<and> length elems = length indices
           \<and> length dimWidths = length (hd indices)
           \<and> printTensor_body prefixStr operand numOperands pid dimWidths hex (hd elems) (hd indices)
               = Inr (fmt, a)
           \<and> rw' = rw\<lparr>globals := globals rw @ [fmt],
                       calls := calls rw @ map (Pair (length (globals rw)))
                                  (map (elemArgs prefixStr pid) (zip elems indices))\<rparr>"
proof -
  from assms obtain g where
    g: "printTensor_out prefixStr operand numOperands elems pid indices dimWidths hex = Inr g"
    and rw': "rw' = commit rw g"
    by (cases "printTensor_out prefixStr operand numOperands elems pid indices dimWidths hex")
       (auto simp: printTensor_eq)
  from printTensor_out_Inr [OF g] rw' show ?thesis
    by (auto simp: commit_def)
qed

lemma operandLoop_append:
  "operandLoop ceilLog10 prefixStr pid numOperands hex i (xs @ ys) rw
     = (case operandLoop ceilLog10 prefixStr pid numOperands hex i xs rw of
          Inl e \<Rightarrow> Inl e
        | Inr rw1 \<Rightarrow> operandLoop ceilLog10 prefixStr pid numOperands hex (i + length xs) ys rw1)"
proof (induction xs arbitrary: i rw)
  case Nil
  then show ?case by simp
next
  case (Cons opnd xs)
  show ?case
    by (simp add: Cons.IH Let_def split: sum.splits option.splits prod.splits)
qed

lemma operands_out_Inr:
  assumes "operands_out ceilLog10 prefixStr pid numOperands hex i operands = Inr gs"
  shows "concat (map snd gs) = requestArgs prefixStr pid operands
       \<and> list_all2
           (\<lambda>k g. \<exists>pre se. fst g = pre @ operandTag numOperands k @ se
                     \<and> CHR ''o'' \<notin> set pre \<and> CHR ''o'' \<notin> set se)
           (map fst (filter (\<lambda>(k, opnd). unpackLLElements opnd \<noteq> []) (enumerate i operands)))
           gs"
  using assms
proof (induction operands arbitrary: i gs)
  case Nil
  then show ?case by (simp add: requestArgs_def)
next
  case (Cons opnd rest)
  from Cons.prems obtain indices dimWidths where
    lay: "operandLayout ceilLog10 opnd = Inr (indices, dimWidths)"
    by (auto split: sum.splits)
  then have ind: "indices = operandIndices opnd"
    by (auto simp: operandLayout_def operandIndices_def split: option.splits if_splits)
  have ra: "requestArgs prefixStr pid (opnd # rest)
              = map (elemArgs prefixStr pid) (zip (unpackLLElements opnd) (operandIndices opnd))
                @ requestArgs prefixStr pid rest"
    by (simp add: requestArgs_def)
  show ?case
  proof (cases "unpackLLElements opnd = []")
    case True
    with Cons.prems lay
    have "operands_out ceilLog10 prefixStr pid numOperands hex (Suc i) rest = Inr gs"
      by simp
    from Cons.IH [OF this] True show ?thesis by (simp add: ra)
  next
    case False
    with Cons.prems lay obtain g gs' where
      g: "printTensor_out prefixStr i numOperands (unpackLLElements opnd) pid indices dimWidths hex
            = Inr g"
      and rest: "operands_out ceilLog10 prefixStr pid numOperands hex (Suc i) rest = Inr gs'"
      and gs: "gs = g # gs'"
      by (auto split: sum.splits)
    from printTensor_out_Inr(4) [OF g] obtain a where
      "printTensor_body prefixStr i numOperands pid dimWidths hex (hd (unpackLLElements opnd))
         (hd indices) = Inr (fst g, a)" by blast
    from printTensor_body_tag [OF this]
    have tag: "\<exists>pre se. fst g = pre @ operandTag numOperands i @ se
                 \<and> CHR ''o'' \<notin> set pre \<and> CHR ''o'' \<notin> set se" .
    from printTensor_out_Inr(5) [OF g]
    have args: "snd g = map (elemArgs prefixStr pid) (zip (unpackLLElements opnd) (operandIndices opnd))"
      by (simp add: ind)
    from Cons.IH [OF rest] tag args False show ?thesis
      by (simp add: gs ra)
  qed
qed

lemma requestArgs_length:
  assumes "a \<in> set (requestArgs prefixStr pid operands)"
  shows "length a \<le> 32"
proof -
  from assms obtain p where "a = elemArgs prefixStr pid p"
    by (auto simp: requestArgs_def)
  then show ?thesis using elemArgs_length by simp
qed

lemma request_out_args:
  assumes "request_out ceilLog10 prefixStr pid operands hex = Inr gs"
  shows "concat (map snd gs)
           = (if operands = [] then [pid_list pid @ [prefixStr]]
              else requestArgs prefixStr pid operands)"
proof (cases "operands = []")
  case True
  with assms show ?thesis by (auto simp: request_out_def split: sum.splits)
next
  case False
  with assms operands_out_Inr show ?thesis by (simp add: request_out_def)
qed

section \<open>The specifier resolver: hex mode\<close>

text \<open>
  Claim C4. For a value of an integer or floating type of bit width \<open>w\<close>, the resolver in
  hex mode returns \<open>0x%0\<close>, then \<open>w / 4\<close> in decimal, then \<open>ll\<close> exactly when \<open>w > 32\<close>,
  then \<open>x\<close>; the width argument does not change the result.
\<close>

theorem getFormatSubstr_hex:
  assumes "isIntOrFloat (getType v)"
    and "getIntOrFloatBitWidth (getType v) = Inr w"
  shows "getFormatSubstr v True width =
           Inr (''0x%0'' @ to_string_unsigned (w div 4) @ (if w > 32 then ''ll'' else []) @ ''x'')
         \<and> getFormatSubstr v True width = getFormatSubstr v True None"
  using assms
  by (auto simp: getFormatSubstr_def isIntOrFloat_def getIntOrFloatBitWidth_def Let_def
           split: mlir_type.splits)

theorem getFormatSubstr_hex_witness:
  "isIntOrFloat (getType \<lparr>getType = IntegerType Signless 64, ident = 0\<rparr>)
   \<and> getIntOrFloatBitWidth (getType \<lparr>getType = IntegerType Signless 64, ident = 0\<rparr>) = Inr 64
   \<and> getFormatSubstr \<lparr>getType = IntegerType Signless 64, ident = 0\<rparr> True (Some 7) = Inr ''0x%016llx''
   \<and> getFormatSubstr \<lparr>getType = FloatType F16, ident = 1\<rparr> True None = Inr ''0x%04x''"
proof -
  have a: "isIntOrFloat (getType \<lparr>getType = IntegerType Signless 64, ident = 0\<rparr>)"
    by (simp add: isIntOrFloat_def)
  have b: "getIntOrFloatBitWidth (getType \<lparr>getType = IntegerType Signless 64, ident = 0\<rparr>) = Inr 64"
    by (simp add: getIntOrFloatBitWidth_def)
  have c: "isIntOrFloat (getType \<lparr>getType = FloatType F16, ident = 1\<rparr>)"
    by (simp add: isIntOrFloat_def)
  have d: "getIntOrFloatBitWidth (getType \<lparr>getType = FloatType F16, ident = 1\<rparr>) = Inr 16"
    by (simp add: getIntOrFloatBitWidth_def)
  have e: "to_string_unsigned 16 = ''16''" "to_string_unsigned 4 = ''4''"
    by (simp_all add: to_string_unsigned.simps digit_def)
  show ?thesis
    using a b getFormatSubstr_hex [OF a b, of "Some 7"] getFormatSubstr_hex [OF c d, of None] e
    by simp
qed

section \<open>The specifier resolver: decimal mode and pointers\<close>

text \<open>
  Claim C5. A pointer resolves to \<open>%p\<close> whatever \<open>hex\<close> and \<open>width\<close> are. With
  \<open>hex = false\<close> the result is the percent sign, the decimal width if one is given, and a
  conversion letter: \<open>f\<close> for bf16, f16, f32 and f64; \<open>lli\<close> for a signed 64-bit integer
  and \<open>i\<close> for any other signed integer; \<open>llu\<close> for an unsigned or signless 64-bit
  integer and \<open>u\<close> for any other unsigned or signless integer.
\<close>

theorem getFormatSubstr_decimal:
  "(getType v = LLVMPointerType \<longrightarrow> getFormatSubstr v hex width = Inr ''%p'')
   \<and> (getType v \<in> {FloatType BF16, FloatType F16, FloatType F32, FloatType F64} \<longrightarrow>
        getFormatSubstr v False width = Inr (decimal_prefix width @ ''f''))
   \<and> (getType v = IntegerType Signed 64 \<longrightarrow>
        getFormatSubstr v False width = Inr (decimal_prefix width @ ''lli''))
   \<and> (getType v = IntegerType Signed w \<and> w \<noteq> 64 \<longrightarrow>
        getFormatSubstr v False width = Inr (decimal_prefix width @ ''i''))
   \<and> (getType v = IntegerType s 64 \<and> s \<in> {Unsigned, Signless} \<longrightarrow>
        getFormatSubstr v False width = Inr (decimal_prefix width @ ''llu''))
   \<and> (getType v = IntegerType s w \<and> s \<in> {Unsigned, Signless} \<and> w \<noteq> 64 \<longrightarrow>
        getFormatSubstr v False width = Inr (decimal_prefix width @ ''u''))"
  by (auto simp: getFormatSubstr_def getIntOrFloatBitWidth_def Let_def isSignedInteger_def
        isUnsignedInteger_def isSignlessInteger_def split: option.splits)

theorem getFormatSubstr_decimal_witness:
  "getFormatSubstr \<lparr>getType = LLVMPointerType, ident = 0\<rparr> True (Some 5) = Inr ''%p''
   \<and> getFormatSubstr \<lparr>getType = FloatType F32, ident = 1\<rparr> False (Some 12) = Inr ''%12f''
   \<and> getFormatSubstr \<lparr>getType = IntegerType Signed 64, ident = 2\<rparr> False None = Inr ''%lli''
   \<and> getFormatSubstr \<lparr>getType = IntegerType Signed 8, ident = 3\<rparr> False (Some 3) = Inr ''%3i''
   \<and> getFormatSubstr \<lparr>getType = IntegerType Unsigned 64, ident = 4\<rparr> False (Some 0) = Inr ''%0llu''
   \<and> getFormatSubstr \<lparr>getType = IntegerType Signless 32, ident = 5\<rparr> False None = Inr ''%u''"
proof -
  have n: "to_string 12 = ''12''" "to_string 3 = ''3''" "to_string 0 = ''0''"
    by (simp_all add: to_string_def to_string_unsigned.simps digit_def)
  show ?thesis
    using
      getFormatSubstr_decimal [of "\<lparr>getType = LLVMPointerType, ident = 0\<rparr>" True "Some 5"]
      getFormatSubstr_decimal [of "\<lparr>getType = FloatType F32, ident = 1\<rparr>" _ "Some 12"]
      getFormatSubstr_decimal [of "\<lparr>getType = IntegerType Signed 64, ident = 2\<rparr>" _ None]
      getFormatSubstr_decimal [of "\<lparr>getType = IntegerType Signed 8, ident = 3\<rparr>" _ "Some 3" 8]
      getFormatSubstr_decimal [of "\<lparr>getType = IntegerType Unsigned 64, ident = 4\<rparr>" _ "Some 0" _ Unsigned]
      getFormatSubstr_decimal [of "\<lparr>getType = IntegerType Signless 32, ident = 5\<rparr>" _ None 32 Signless]
      n
    by simp
qed

section \<open>Truncation of the index\<close>

text \<open>
  Claim C1. When \<open>printTensor\<close> succeeds on an operand of rank above 27 (every index as
  long as \<open>dimWidths\<close>), the one format string it registers has, between \<open>idx (\<close> and
  \<open>)\<close>, exactly 27 coordinate specifiers (those of the first 27 coordinates with their
  widths) and then the marker \<open>... (truncated)\<close>, all separated by \<open>", "\<close>; and every
  call carries the three program ids, exactly the first 27 coordinates of its element,
  the prefix and the element, and no coordinate past the cutoff.
\<close>

theorem printTensor_truncates_index:
  assumes "printTensor prefixStr operand numOperands elems (x, y, z) indices dimWidths hex rw
             = Inr rw'"
    and "27 < length dimWidths"
    and "list_all (\<lambda>index. length index = length dimWidths) indices"
  shows "\<exists>sx sy sz specs se.
           getFormatSubstr x False None = Inr sx
         \<and> getFormatSubstr y False None = Inr sy
         \<and> getFormatSubstr z False None = Inr sz
         \<and> getFormatSubstr (hd elems) hex None = Inr se
         \<and> length specs = 27
         \<and> map2 (\<lambda>v w. getFormatSubstr v False (Some w)) (take 27 (hd indices)) (take 27 dimWidths)
             = map Inr specs
         \<and> globals rw' = globals rw @
             [''pid ('' @ sx @ '', '' @ sy @ '', '' @ sz @ '') idx (''
              @ join (specs @ [''... (truncated)'']) @ '')%s''
              @ operandTag numOperands operand @ se]
         \<and> calls rw' = calls rw @
             map (\<lambda>(elem, index).
                    (length (globals rw), [x, y, z] @ take 27 index @ [prefixStr, elem]))
               (zip elems indices)
         \<and> list_all (\<lambda>index. length (take 27 index) = 27) indices"
proof -
  from printTensor_Inr [OF assms(1)] obtain fmt a where
    ne: "elems \<noteq> []" and len: "length dimWidths = length (hd indices)"
    and body: "printTensor_body prefixStr operand numOperands (x, y, z) dimWidths hex (hd elems)
                 (hd indices) = Inr (fmt, a)"
    and rw': "rw' = rw\<lparr>globals := globals rw @ [fmt],
                       calls := calls rw @ map (Pair (length (globals rw)))
                                  (map (elemArgs prefixStr (x, y, z)) (zip elems indices))\<rparr>"
    by blast
  from printTensor_body_Inr [OF body] assms(2) len obtain sx sy sz specs se where
    s: "getFormatSubstr x False None = Inr sx" "getFormatSubstr y False None = Inr sy"
       "getFormatSubstr z False None = Inr sz" "getFormatSubstr (hd elems) hex None = Inr se"
    and l: "length specs = 27"
    and each: "\<forall>k<length specs. k < length dimWidths
               \<and> getFormatSubstr (hd indices ! k) False (Some (dimWidths ! k)) = Inr (specs ! k)"
    and fmt: "fmt = ''pid ('' @ sx @ '', '' @ sy @ '', '' @ sz @ '') idx (''
                 @ join (specs @ [''... (truncated)'']) @ '')%s''
                 @ operandTag numOperands operand @ se"
    by auto
  have m: "map2 (\<lambda>v w. getFormatSubstr v False (Some w)) (take 27 (hd indices)) (take 27 dimWidths)
             = map Inr specs"
    using l each len assms(2) by (intro nth_equalityI) simp_all
  have c: "calls rw' = calls rw @
             map (\<lambda>(elem, index).
                    (length (globals rw), [x, y, z] @ take 27 index @ [prefixStr, elem]))
               (zip elems indices)"
    by (simp add: rw' comp_def case_prod_unfold)
  have t: "list_all (\<lambda>index. length (take 27 index) = 27) indices"
    using assms(2,3) by (auto simp: list_all_iff)
  from s l m fmt c t rw' show ?thesis
    by (intro exI [of _ sx] exI [of _ sy] exI [of _ sz] exI [of _ specs] exI [of _ se]) simp
qed

theorem printTensor_truncates_index_witness:
  "\<exists>rw'. printTensor (ptr 100) 0 1 [f32 50] (i32 0, i32 1, i32 2) [map i32 [10..<40]]
            (replicate 30 1) False emptyRewriter = Inr rw'
     \<and> 27 < length (replicate 30 (1::int))
     \<and> list_all (\<lambda>index. length index = length (replicate 30 (1::int))) [map i32 [10..<40]]
     \<and> (\<exists>sx sy sz specs se.
           length specs = 27
         \<and> globals rw' = globals emptyRewriter @
             [''pid ('' @ sx @ '', '' @ sy @ '', '' @ sz @ '') idx (''
              @ join (specs @ [''... (truncated)'']) @ '')%s'' @ operandTag 1 0 @ se]
         \<and> calls rw' = calls emptyRewriter @
             map (\<lambda>(elem, index).
                    (length (globals emptyRewriter),
                     [i32 0, i32 1, i32 2] @ take 27 index @ [ptr 100, elem]))
               (zip [f32 50] [map i32 [10..<40]]))"
proof -
  have h1: "printTensor (ptr 100) 0 1 [f32 50] (i32 0, i32 1, i32 2) [map i32 [10..<40]]
              (replicate 30 1) False emptyRewriter
            = Inr \<lparr>globals = [''pid (%u, %u, %u) idx ('' @ concat (replicate 27 ''%1u, '')
                                @ ''... (truncated))%s%f''],
                    calls = [(0, [i32 0, i32 1, i32 2] @ map i32 [10..<37] @ [ptr 100, f32 50])]\<rparr>"
    by code_simp
  have h2: "27 < length (replicate 30 (1::int))" by simp
  have h3: "list_all (\<lambda>index. length index = length (replicate 30 (1::int))) [map i32 [10..<40]]"
    by simp
  from printTensor_truncates_index [OF h1 h2 h3] h1 h2 h3 show ?thesis by blast
qed

section \<open>The argument ceiling\<close>

text \<open>
  Claim C2. Every call a request emits carries at most 32 arguments. With operands, the
  calls are, operand by operand and element by element, the three program ids, at most
  27 coordinates, the prefix string and the element; without operands the one call
  carries the program ids and the prefix.
\<close>

theorem matchAndRewrite_argument_ceiling:
  assumes "matchAndRewrite ceilLog10 prefixStr pid operands hex rw = Inr rw'"
  shows "\<exists>cs. calls rw' = calls rw @ cs
           \<and> list_all (\<lambda>c. length (snd c) \<le> 32) cs
           \<and> map snd cs =
               (if operands = [] then [pid_list pid @ [prefixStr]]
                else concat (map
                  (\<lambda>opnd. map (\<lambda>(elem, index). pid_list pid @ take 27 index @ [prefixStr, elem])
                            (zip (unpackLLElements opnd) (operandIndices opnd)))
                  operands))"
proof -
  from assms obtain gs where gs: "request_out ceilLog10 prefixStr pid operands hex = Inr gs"
    and rw': "rw' = foldl commit rw gs"
    by (cases "request_out ceilLog10 prefixStr pid operands hex") (auto simp: matchAndRewrite_eq)
  from calls_foldl_commit [of rw gs] obtain cs where
    cs: "calls rw' = calls rw @ cs" and args: "map snd cs = concat (map snd gs)"
    unfolding rw' by blast
  have m: "map snd cs = (if operands = [] then [pid_list pid @ [prefixStr]]
                         else requestArgs prefixStr pid operands)"
    using args request_out_args [OF gs] by simp
  have "length a \<le> 32" if "a \<in> set (map snd cs)" for a
  proof (cases "operands = []")
    case True
    with that m show ?thesis by (cases pid) auto
  next
    case False
    with that m show ?thesis by (auto intro: requestArgs_length)
  qed
  then have l: "list_all (\<lambda>c. length (snd c) \<le> 32) cs" by (auto simp: list_all_iff)
  from cs l m show ?thesis unfolding requestArgs_def by blast
qed

theorem matchAndRewrite_argument_ceiling_witness:
  "\<exists>rw'. matchAndRewrite ceilLog10_exact (ptr 100) (i32 0, i32 1, i32 2)
            [matrixOperand, scalarOperand] False emptyRewriter = Inr rw'
     \<and> (\<exists>cs. calls rw' = calls emptyRewriter @ cs
           \<and> list_all (\<lambda>c. length (snd c) \<le> 32) cs
           \<and> map snd cs =
               [[i32 0, i32 1, i32 2, i32 10, i32 11, ptr 100, f32 50],
                [i32 0, i32 1, i32 2, i32 12, i32 13, ptr 100, f32 51],
                [i32 0, i32 1, i32 2, ptr 100, f32 52]])"
proof -
  have h: "matchAndRewrite ceilLog10_exact (ptr 100) (i32 0, i32 1, i32 2)
             [matrixOperand, scalarOperand] False emptyRewriter
           = Inr \<lparr>globals = [''pid (%u, %u, %u) idx (%1u, %1u)%s(operand 0) %f'',
                               ''pid (%u, %u, %u) idx ()%s(operand 1) %f''],
                   calls = [(0, [i32 0, i32 1, i32 2, i32 10, i32 11, ptr 100, f32 50]),
                            (0, [i32 0, i32 1, i32 2, i32 12, i32 13, ptr 100, f32 51]),
                            (1, [i32 0, i32 1, i32 2, ptr 100, f32 52])]\<rparr>"
    by code_simp
  from matchAndRewrite_argument_ceiling [OF h] h show ?thesis
    by (simp add: matrixOperand_def scalarOperand_def operandIndices_def)
qed

section \<open>A request without operands\<close>

text \<open>
  Claim C3, amended. A request without operands emits exactly one call: it registers the
  format string \<open>pid (\<close>, the three program-id specifiers separated by \<open>", "\<close>, then
  \<open>)%s\<close> with no space between the parenthesis and \<open>%s\<close>, and its arguments are the three
  program ids and the prefix, in this order.
\<close>

theorem no_operand_request:
  assumes "getFormatSubstr x False None = Inr sx"
    and "getFormatSubstr y False None = Inr sy"
    and "getFormatSubstr z False None = Inr sz"
  shows "matchAndRewrite ceilLog10 prefixStr (x, y, z) [] hex rw
           = Inr (rw\<lparr>globals := globals rw @ [''pid ('' @ sx @ '', '' @ sy @ '', '' @ sz @ '')%s''],
                     calls := calls rw @ [(length (globals rw), [x, y, z, prefixStr])]\<rparr>)"
  using assms by (simp add: matchAndRewrite_def llPrintf_def Let_def)

theorem no_operand_request_witness:
  "getFormatSubstr (i32 1) False None = Inr ''%u''
   \<and> getFormatSubstr (i32 2) False None = Inr ''%u''
   \<and> getFormatSubstr (i32 3) False None = Inr ''%u''
   \<and> matchAndRewrite ceilLog10_exact (ptr 100) (i32 1, i32 2, i32 3) [] False emptyRewriter
       = Inr \<lparr>globals = [''pid (%u, %u, %u)%s''],
               calls = [(0, [i32 1, i32 2, i32 3, ptr 100])]\<rparr>"
proof -
  have h: "getFormatSubstr (i32 1) False None = Inr ''%u''"
    "getFormatSubstr (i32 2) False None = Inr ''%u''"
    "getFormatSubstr (i32 3) False None = Inr ''%u''"
    by code_simp+
  from no_operand_request [OF h, of ceilLog10_exact "ptr 100" False emptyRewriter] h
  show ?thesis by (simp add: emptyRewriter_def)
qed

text \<open>
  The format string of a request without operands is not the one with a space before
  \<open>%s\<close>: for 32-bit signless program ids it is \<open>pid (%u, %u, %u)%s\<close>.
\<close>

theorem no_operand_request_counterexample:
  "matchAndRewrite ceilLog10_exact (ptr 100) (i32 1, i32 2, i32 3) [] False emptyRewriter
     = Inr \<lparr>globals = [''pid (%u, %u, %u)%s''],
             calls = [(0, [i32 1, i32 2, i32 3, ptr 100])]\<rparr>
   \<and> matchAndRewrite ceilLog10_exact (ptr 100) (i32 1, i32 2, i32 3) [] False emptyRewriter
     \<noteq> Inr \<lparr>globals = [''pid (%u, %u, %u) %s''],
             calls = [(0, [i32 1, i32 2, i32 3, ptr 100])]\<rparr>"
  by code_simp

section \<open>The operand tag\<close>

text \<open>
  Claim C7. In a request with more than one operand, the format strings registered are,
  in order, those of the operands that have elements, and the one of operand \<open>k\<close>
  contains the text \<open>(operand k) \<close>; in a request with one operand no format string
  registered contains such a tag, for any \<open>k\<close>. The tag binds no argument: the argument
  lists are the program ids, the coordinates up to 27, the prefix and the element,
  whatever the number of operands.
\<close>

theorem operand_tag:
  assumes "matchAndRewrite ceilLog10 prefixStr pid operands hex rw = Inr rw'"
  shows "(1 < length operands \<longrightarrow>
            list_all2 (\<lambda>k fmt. sublist (''(operand '' @ to_string_unsigned k @ '') '') fmt)
              (map fst (filter (\<lambda>(k, opnd). unpackLLElements opnd \<noteq> []) (enumerate 0 operands)))
              (drop (length (globals rw)) (globals rw')))
       \<and> (length operands = 1 \<longrightarrow>
            list_all (\<lambda>fmt. \<forall>k. \<not> sublist (''(operand '' @ to_string_unsigned k @ '') '') fmt)
              (drop (length (globals rw)) (globals rw')))
       \<and> (operands \<noteq> [] \<longrightarrow>
            map snd (drop (length (calls rw)) (calls rw')) =
              concat (map
                (\<lambda>opnd. map (\<lambda>(elem, index). pid_list pid @ take 27 index @ [prefixStr, elem])
                          (zip (unpackLLElements opnd) (operandIndices opnd)))
                operands))"
proof -
  from assms obtain gs where gs: "request_out ceilLog10 prefixStr pid operands hex = Inr gs"
    and rw': "rw' = foldl commit rw gs"
    by (cases "request_out ceilLog10 prefixStr pid operands hex") (auto simp: matchAndRewrite_eq)
  have new: "drop (length (globals rw)) (globals rw') = map fst gs"
    by (simp add: rw' globals_foldl_commit)
  let ?ks = "map fst (filter (\<lambda>(k, opnd). unpackLLElements opnd \<noteq> []) (enumerate 0 operands))"
  have out: "concat (map snd gs) = requestArgs prefixStr pid operands
       \<and> list_all2
           (\<lambda>k g. \<exists>pre se. fst g = pre @ operandTag (length operands) k @ se
                     \<and> CHR ''o'' \<notin> set pre \<and> CHR ''o'' \<notin> set se)
           ?ks gs" if "operands \<noteq> []"
    using gs that operands_out_Inr by (simp add: request_out_def)
  have 1: "list_all2 (\<lambda>k fmt. sublist (''(operand '' @ to_string_unsigned k @ '') '') fmt)
              ?ks (drop (length (globals rw)) (globals rw'))" if n: "1 < length operands"
  proof -
    from n have "operands \<noteq> []" by auto
    from out [OF this] have "list_all2
           (\<lambda>k g. \<exists>pre se. fst g = pre @ operandTag (length operands) k @ se
                     \<and> CHR ''o'' \<notin> set pre \<and> CHR ''o'' \<notin> set se) ?ks gs" by simp
    then have "list_all2
           (\<lambda>k g. sublist (''(operand '' @ to_string_unsigned k @ '') '') (fst g)) ?ks gs"
    proof (rule list_all2_mono)
      fix k :: nat and g :: group
      assume "\<exists>pre se. fst g = pre @ operandTag (length operands) k @ se
                     \<and> CHR ''o'' \<notin> set pre \<and> CHR ''o'' \<notin> set se"
      then obtain pre se where "fst g = pre @ operandTag (length operands) k @ se" by blast
      with n have "fst g = pre @ (''(operand '' @ to_string_unsigned k @ '') '') @ se"
        by (simp add: operandTag_def)
      then show "sublist (''(operand '' @ to_string_unsigned k @ '') '') (fst g)"
        by (simp only: sublist_appendI)
    qed
    then show ?thesis by (simp add: new list_all2_map2)
  qed
  have 2: "list_all (\<lambda>fmt. \<forall>k. \<not> sublist (''(operand '' @ to_string_unsigned k @ '') '') fmt)
              (drop (length (globals rw)) (globals rw'))" if n: "length operands = 1"
  proof -
    from n have "operands \<noteq> []" by auto
    from out [OF this] have l: "list_all2
           (\<lambda>k g. \<exists>pre se. fst g = pre @ operandTag (length operands) k @ se
                     \<and> CHR ''o'' \<notin> set pre \<and> CHR ''o'' \<notin> set se) ?ks gs" by simp
    have "\<not> sublist (''(operand '' @ to_string_unsigned k @ '') '') (fst g)" if "g \<in> set gs" for g k
    proof
      assume s: "sublist (''(operand '' @ to_string_unsigned k @ '') '') (fst g)"
      from that l obtain k' pre se where "fst g = pre @ operandTag (length operands) k' @ se"
        "CHR ''o'' \<notin> set pre" "CHR ''o'' \<notin> set se"
        by (auto simp: list_all2_conv_all_nth in_set_conv_nth)
      with n have "CHR ''o'' \<notin> set (fst g)" by (simp add: operandTag_def)
      moreover from set_mono_sublist [OF s] have "CHR ''o'' \<in> set (fst g)" by auto
      ultimately show False by simp
    qed
    then show ?thesis by (auto simp: new list_all_iff)
  qed
  have 3: "map snd (drop (length (calls rw)) (calls rw')) = requestArgs prefixStr pid operands"
    if "operands \<noteq> []"
    using out [OF that] new_calls_foldl_commit [of rw gs] by (simp add: rw')
  from 1 2 3 show ?thesis unfolding requestArgs_def by blast
qed

theorem operand_tag_witness:
  "\<exists>rw2 rw1.
       matchAndRewrite ceilLog10_exact (ptr 100) (i32 0, i32 1, i32 2)
         [matrixOperand, scalarOperand] False emptyRewriter = Inr rw2
     \<and> list_all2 (\<lambda>k fmt. sublist (''(operand '' @ to_string_unsigned k @ '') '') fmt)
         [0, 1] (globals rw2)
     \<and> matchAndRewrite ceilLog10_exact (ptr 100) (i32 0, i32 1, i32 2)
         [matrixOperand] False emptyRewriter = Inr rw1
     \<and> list_all (\<lambda>fmt. \<forall>k. \<not> sublist (''(operand '' @ to_string_unsigned k @ '') '') fmt)
         (globals rw1)"
proof -
  have h2: "matchAndRewrite ceilLog10_exact (ptr 100) (i32 0, i32 1, i32 2)
             [matrixOperand, scalarOperand] False emptyRewriter
           = Inr \<lparr>globals = [''pid (%u, %u, %u) idx (%1u, %1u)%s(operand 0) %f'',
                               ''pid (%u, %u, %u) idx ()%s(operand 1) %f''],
                   calls = [(0, [i32 0, i32 1, i32 2, i32 10, i32 11, ptr 100, f32 50]),
                            (0, [i32 0, i32 1, i32 2, i32 12, i32 13, ptr 100, f32 51]),
                            (1, [i32 0, i32 1, i32 2, ptr 100, f32 52])]\<rparr>"
    by code_simp
  have h1: "matchAndRewrite ceilLog10_exact (ptr 100) (i32 0, i32 1, i32 2)
             [matrixOperand] False emptyRewriter
           = Inr \<lparr>globals = [''pid (%u, %u, %u) idx (%1u, %1u)%s%f''],
                   calls = [(0, [i32 0, i32 1, i32 2, i32 10, i32 11, ptr 100, f32 50]),
                            (0, [i32 0, i32 1, i32 2, i32 12, i32 13, ptr 100, f32 51])]\<rparr>"
    by code_simp
  from operand_tag [OF h2] operand_tag [OF h1] h1 h2 show ?thesis
    by (simp add: matrixOperand_def scalarOperand_def emptyRewriter_def)
qed

section \<open>The cached format string\<close>

text \<open>
  Claim C8. For an operand with at least one element, whose elements have one type and
  whose indices have one list of types (so one rank), and whose first element formats,
  every element of the operand builds the same format string as the first; and
  \<open>printTensor\<close> registers this string once and emits one call per element, in order,
  each with the handle that the registration returned and the element's own arguments.
\<close>

theorem printTensor_format_cached:
  assumes "elems \<noteq> []" and "length elems = length indices"
    and "length dimWidths = length (hd indices)"
    and "list_all (\<lambda>elem. getType elem = getType (hd elems)) elems"
    and "list_all (\<lambda>index. map getType index = map getType (hd indices)) indices"
    and "printTensor_body prefixStr operand numOperands pid dimWidths hex (hd elems) (hd indices)
           = Inr (fmt, args0)"
  shows "list_all
           (\<lambda>(elem, index).
              printTensor_body prefixStr operand numOperands pid dimWidths hex elem index
                = Inr (fmt, pid_list pid @ take 27 index @ [prefixStr, elem]))
           (zip elems indices)
       \<and> printTensor prefixStr operand numOperands elems pid indices dimWidths hex rw
           = Inr (rw\<lparr>globals := globals rw @ [fmt],
                     calls := calls rw @
                       map (\<lambda>(elem, index).
                              (length (globals rw),
                               pid_list pid @ take 27 index @ [prefixStr, elem]))
                         (zip elems indices)\<rparr>)"
proof -
  let ?body = "\<lambda>(elem, index).
                 printTensor_body prefixStr operand numOperands pid dimWidths hex elem index"
  have each: "?body p = Inr (fmt, elemArgs prefixStr pid p)" if "p \<in> set (zip elems indices)" for p
  proof -
    obtain elem index where p: "p = (elem, index)" by (cases p) auto
    with that have "elem \<in> set elems" "index \<in> set indices"
      by (auto dest: set_zip_leftD set_zip_rightD)
    with assms(4,5) have "getType elem = getType (hd elems)"
      "map getType index = map getType (hd indices)"
      by (auto simp: list_all_iff)
    from printTensor_body_types [OF this, of prefixStr operand numOperands pid dimWidths hex] assms(6)
    obtain a where b: "printTensor_body prefixStr operand numOperands pid dimWidths hex elem index
                         = Inr (fmt, a)"
      by (cases "printTensor_body prefixStr operand numOperands pid dimWidths hex elem index") auto
    from printTensor_body_args [OF b] b show ?thesis by (simp add: p)
  qed
  then have 1: "list_all
           (\<lambda>(elem, index).
              printTensor_body prefixStr operand numOperands pid dimWidths hex elem index
                = Inr (fmt, pid_list pid @ take 27 index @ [prefixStr, elem]))
           (zip elems indices)"
    by (auto simp: list_all_iff)
  have "map ?body (zip elems indices)
          = map Inr (map (\<lambda>p. (fmt, elemArgs prefixStr pid p)) (zip elems indices))"
    using each by simp
  then have c: "collect (map ?body (zip elems indices))
          = Inr (map (\<lambda>p. (fmt, elemArgs prefixStr pid p)) (zip elems indices))"
    by (simp only: collect_map_Inr)
  from assms(1,2) have z: "zip elems indices \<noteq> []" by (cases elems; cases indices) auto
  then have h: "fst (hd (map (\<lambda>p. (fmt, elemArgs prefixStr pid p)) (zip elems indices))) = fmt"
    by (cases "zip elems indices") auto
  have out: "printTensor_out prefixStr operand numOperands elems pid indices dimWidths hex
               = Inr (fmt, map (elemArgs prefixStr pid) (zip elems indices))"
    using assms(1,2,3) h by (simp add: printTensor_out_def c comp_def del: hd_map)
  have 2: "printTensor prefixStr operand numOperands elems pid indices dimWidths hex rw
           = Inr (rw\<lparr>globals := globals rw @ [fmt],
                     calls := calls rw @
                       map (\<lambda>(elem, index).
                              (length (globals rw),
                               pid_list pid @ take 27 index @ [prefixStr, elem]))
                         (zip elems indices)\<rparr>)"
    by (simp add: printTensor_eq out commit_def comp_def case_prod_unfold)
  from 1 2 show ?thesis by blast
qed

theorem printTensor_format_cached_witness:
  "[f32 50, f32 51] \<noteq> []
   \<and> length [f32 50, f32 51] = length [[i32 10, i32 11], [i32 12, i32 13]]
   \<and> length [1, 1 :: int] = length (hd [[i32 10, i32 11], [i32 12, i32 13]])
   \<and> list_all (\<lambda>elem. getType elem = getType (hd [f32 50, f32 51])) [f32 50, f32 51]
   \<and> list_all (\<lambda>index. map getType index = map getType (hd [[i32 10, i32 11], [i32 12, i32 13]]))
        [[i32 10, i32 11], [i32 12, i32 13]]
   \<and> printTensor_body (ptr 100) 0 1 (i32 0, i32 1, i32 2) [1, 1] False (hd [f32 50, f32 51])
        (hd [[i32 10, i32 11], [i32 12, i32 13]])
       = Inr (''pid (%u, %u, %u) idx (%1u, %1u)%s%f'',
              [i32 0, i32 1, i32 2, i32 10, i32 11, ptr 100, f32 50])
   \<and> printTensor_body (ptr 100) 0 1 (i32 0, i32 1, i32 2) [1, 1] False (f32 51) [i32 12, i32 13]
       = Inr (''pid (%u, %u, %u) idx (%1u, %1u)%s%f'',
              [i32 0, i32 1, i32 2, i32 12, i32 13, ptr 100, f32 51])
   \<and> printTensor (ptr 100) 0 1 [f32 50, f32 51] (i32 0, i32 1, i32 2)
        [[i32 10, i32 11], [i32 12, i32 13]] [1, 1] False emptyRewriter
       = Inr \<lparr>globals = [''pid (%u, %u, %u) idx (%1u, %1u)%s%f''],
               calls = [(0, [i32 0, i32 1, i32 2, i32 10, i32 11, ptr 100, f32 50]),
                        (0, [i32 0, i32 1, i32 2, i32 12, i32 13, ptr 100, f32 51])]\<rparr>"
proof -
  have h1: "[f32 50, f32 51] \<noteq> []" by simp
  have h2: "length [f32 50, f32 51] = length [[i32 10, i32 11], [i32 12, i32 13]]" by simp
  have h3: "length [1, 1 :: int] = length (hd [[i32 10, i32 11], [i32 12, i32 13]])" by simp
  have h4: "list_all (\<lambda>elem. getType elem = getType (hd [f32 50, f32 51])) [f32 50, f32 51]"
    by (simp add: f32_def)
  have h5: "list_all (\<lambda>index. map getType index = map getType (hd [[i32 10, i32 11], [i32 12, i32 13]]))
        [[i32 10, i32 11], [i32 12, i32 13]]"
    by (simp add: i32_def)
  have h6: "printTensor_body (ptr 100) 0 1 (i32 0, i32 1, i32 2) [1, 1] False (hd [f32 50, f32 51])
        (hd [[i32 10, i32 11], [i32 12, i32 13]])
       = Inr (''pid (%u, %u, %u) idx (%1u, %1u)%s%f'',
              [i32 0, i32 1, i32 2, i32 10, i32 11, ptr 100, f32 50])"
    by code_simp
  from printTensor_format_cached [OF h1 h2 h3 h4 h5 h6, of emptyRewriter] h1 h2 h3 h4 h5 h6
  show ?thesis
    by (simp add: emptyRewriter_def)
qed

section \<open>Determinism\<close>

text \<open>
  Claim C9. What a request emits does not depend on the rewriter it starts from: run
  from any two rewriter states, on the same request, program ids and collaborator
  results, the pattern fails with the same error or emits the same lines, format text
  and arguments, in the same order. Running it a second time, from the state the first
  run left, is one instance.
\<close>

theorem formatting_deterministic:
  "map_sum id (\<lambda>rw'. drop (length (calls rw1)) (emitted rw'))
       (matchAndRewrite ceilLog10 prefixStr pid operands hex rw1)
     = map_sum id (\<lambda>rw'. drop (length (calls rw2)) (emitted rw'))
         (matchAndRewrite ceilLog10 prefixStr pid operands hex rw2)"
  by (cases "request_out ceilLog10 prefixStr pid operands hex")
     (simp_all add: matchAndRewrite_eq emitted_foldl_commit)

theorem formatting_deterministic_witness:
  "matchAndRewrite ceilLog10_exact (ptr 100) (i32 0, i32 1, i32 2)
     [matrixOperand, scalarOperand] False emptyRewriter
     = Inr \<lparr>globals = [''pid (%u, %u, %u) idx (%1u, %1u)%s(operand 0) %f'',
                        ''pid (%u, %u, %u) idx ()%s(operand 1) %f''],
             calls = [(0, [i32 0, i32 1, i32 2, i32 10, i32 11, ptr 100, f32 50]),
                      (0, [i32 0, i32 1, i32 2, i32 12, i32 13, ptr 100, f32 51]),
                      (1, [i32 0, i32 1, i32 2, ptr 100, f32 52])]\<rparr>
   \<and> map_sum id (\<lambda>rw'. drop (length (calls emptyRewriter)) (emitted rw'))
       (matchAndRewrite ceilLog10_exact (ptr 100) (i32 0, i32 1, i32 2)
          [matrixOperand, scalarOperand] False emptyRewriter)
     = map_sum id
         (\<lambda>rw'. drop (length (calls
            \<lparr>globals = [''pid (%u, %u, %u) idx (%1u, %1u)%s(operand 0) %f'',
                        ''pid (%u, %u, %u) idx ()%s(operand 1) %f''],
             calls = [(0, [i32 0, i32 1, i32 2, i32 10, i32 11, ptr 100, f32 50]),
                      (0, [i32 0, i32 1, i32 2, i32 12, i32 13, ptr 100, f32 51]),
                      (1, [i32 0, i32 1, i32 2, ptr 100, f32 52])]\<rparr>))
            (emitted rw'))
         (matchAndRewrite ceilLog10_exact (ptr 100) (i32 0, i32 1, i32 2)
            [matrixOperand, scalarOperand] False
            \<lparr>globals = [''pid (%u, %u, %u) idx (%1u, %1u)%s(operand 0) %f'',
                        ''pid (%u, %u, %u) idx ()%s(operand 1) %f''],
             calls = [(0, [i32 0, i32 1, i32 2, i32 10, i32 11, ptr 100, f32 50]),
                      (0, [i32 0, i32 1, i32 2, i32 12, i32 13, ptr 100, f32 51]),
                      (1, [i32 0, i32 1, i32 2, ptr 100, f32 52])]\<rparr>)"
proof -
  have h: "matchAndRewrite ceilLog10_exact (ptr 100) (i32 0, i32 1, i32 2)
     [matrixOperand, scalarOperand] False emptyRewriter
     = Inr \<lparr>globals = [''pid (%u, %u, %u) idx (%1u, %1u)%s(operand 0) %f'',
                        ''pid (%u, %u, %u) idx ()%s(operand 1) %f''],
             calls = [(0, [i32 0, i32 1, i32 2, i32 10, i32 11, ptr 100, f32 50]),
                      (0, [i32 0, i32 1, i32 2, i32 12, i32 13, ptr 100, f32 51]),
                      (1, [i32 0, i32 1, i32 2, ptr 100, f32 52])]\<rparr>"
    by code_simp
  show ?thesis
    by (intro conjI h formatting_deterministic)
qed

section \<open>Operands without elements\<close>

text \<open>
  Claim C10. A ranked operand with no element for this thread is passed over: the
  request behaves as the operands before it followed, from the rewriter state they
  left, by the operands after it (which keep their own positions as operand numbers);
  the empty operand adds no call and no error.
\<close>

theorem empty_ranked_operand_skipped:
  assumes "rankedShape opnd = Some shape" and "unpackLLElements opnd = []"
  shows "matchAndRewrite ceilLog10 prefixStr pid (before @ opnd # after) hex rw
           = (case operandLoop ceilLog10 prefixStr pid (length (before @ opnd # after)) hex 0
                     before rw
              of
                Inl e \<Rightarrow> Inl e
              | Inr rw1 \<Rightarrow>
                  operandLoop ceilLog10 prefixStr pid (length (before @ opnd # after)) hex
                    (Suc (length before)) after rw1)"
  using assms
  by (simp add: matchAndRewrite_def operandLoop_append Let_def split: sum.splits)

theorem empty_ranked_operand_skipped_witness:
  "rankedShape emptyOperand = Some [0]
   \<and> unpackLLElements emptyOperand = []
   \<and> matchAndRewrite ceilLog10_exact (ptr 100) (i32 0, i32 1, i32 2)
        ([matrixOperand] @ emptyOperand # [scalarOperand]) False emptyRewriter
       = (case operandLoop ceilLog10_exact (ptr 100) (i32 0, i32 1, i32 2)
                 (length ([matrixOperand] @ emptyOperand # [scalarOperand])) False 0
                 [matrixOperand] emptyRewriter
          of
            Inl e \<Rightarrow> Inl e
          | Inr rw1 \<Rightarrow>
              operandLoop ceilLog10_exact (ptr 100) (i32 0, i32 1, i32 2)
                (length ([matrixOperand] @ emptyOperand # [scalarOperand])) False
                (Suc (length [matrixOperand])) [scalarOperand] rw1)
   \<and> matchAndRewrite ceilLog10_exact (ptr 100) (i32 0, i32 1, i32 2)
        ([matrixOperand] @ emptyOperand # [scalarOperand]) False emptyRewriter
       = Inr \<lparr>globals = [''pid (%u, %u, %u) idx (%1u, %1u)%s(operand 0) %f'',
                           ''pid (%u, %u, %u) idx ()%s(operand 2) %f''],
               calls = [(0, [i32 0, i32 1, i32 2, i32 10, i32 11, ptr 100, f32 50]),
                        (0, [i32 0, i32 1, i32 2, i32 12, i32 13, ptr 100, f32 51]),
                        (1, [i32 0, i32 1, i32 2, ptr 100, f32 52])]\<rparr>"
proof -
  have h1: "rankedShape emptyOperand = Some [0]" by (simp add: emptyOperand_def)
  have h2: "unpackLLElements emptyOperand = []" by (simp add: emptyOperand_def)
  have v: "matchAndRewrite ceilLog10_exact (ptr 100) (i32 0, i32 1, i32 2)
        ([matrixOperand] @ emptyOperand # [scalarOperand]) False emptyRewriter
       = Inr \<lparr>globals = [''pid (%u, %u, %u) idx (%1u, %1u)%s(operand 0) %f'',
                           ''pid (%u, %u, %u) idx ()%s(operand 2) %f''],
               calls = [(0, [i32 0, i32 1, i32 2, i32 10, i32 11, ptr 100, f32 50]),
                        (0, [i32 0, i32 1, i32 2, i32 12, i32 13, ptr 100, f32 51]),
                        (1, [i32 0, i32 1, i32 2, ptr 100, f32 52])]\<rparr>"
    by code_simp
  from empty_ranked_operand_skipped [OF h1 h2, of ceilLog10_exact "ptr 100" "(i32 0, i32 1, i32 2)"
      "[matrixOperand]" "[scalarOperand]" False emptyRewriter] h1 h2 v
  show ?thesis by blast
qed

end
